theory Spec2Isabelle
  imports Main
begin

section \<open>Word Seek: the scoring engine\<close>

text \<open>
  The three emoji that \<open>format_guess_result\<close> writes: the green square (letter in its
  place), the yellow square (letter present elsewhere) and the red square (letter absent).
\<close>

datatype marker = Exact | Present | Absent

text \<open>
  The working state of \<open>format_guess_result\<close>: \<open>target_list\<close>, \<open>guess_list\<close> and
  \<open>result_emoji\<close>. A consumed letter is Python's \<open>None\<close>; a slot of \<open>result_emoji\<close> that
  still holds the empty string is \<open>None\<close> too.
\<close>

type_synonym 'a fstate = "'a option list \<times> 'a option list \<times> marker option list"

text \<open>\<open>list.index\<close>: the leftmost position of \<open>x\<close> (only called when \<open>x\<close> occurs).\<close>

fun index_of :: "'a \<Rightarrow> 'a list \<Rightarrow> nat" where
  "index_of x [] = 0"
| "index_of x (y # ys) = (if x = y then 0 else Suc (index_of x ys))"

text \<open>One round of the first loop (the green check) at position \<open>i\<close>.\<close>

definition green_step :: "nat \<Rightarrow> 'a fstate \<Rightarrow> 'a fstate" where
  "green_step i s =
     (case s of (target_list, guess_list, result_emoji) \<Rightarrow>
        if guess_list ! i = target_list ! i
        then (target_list[i := None], guess_list[i := None], result_emoji[i := Some Exact])
        else s)"

text \<open>One round of the second loop (the yellow/red check) at position \<open>i\<close>.\<close>

definition yellow_step :: "nat \<Rightarrow> 'a fstate \<Rightarrow> 'a fstate" where
  "yellow_step i s =
     (case s of (target_list, guess_list, result_emoji) \<Rightarrow>
        if result_emoji ! i = None
        then (if guess_list ! i \<noteq> None \<and> guess_list ! i \<in> set target_list
              then (target_list[index_of (guess_list ! i) target_list := None], guess_list,
                    result_emoji[i := Some Present])
              else (target_list, guess_list, result_emoji[i := Some Absent]))
        else s)"

text \<open>\<open>"".join(result_emoji)\<close>: an empty slot contributes nothing.\<close>

definition join_emoji :: "marker option list \<Rightarrow> marker list" where
  "join_emoji r = concat (map (\<lambda>m. case m of None \<Rightarrow> [] | Some x \<Rightarrow> [x]) r)"

text \<open>
  \<open>format_guess_result(target, guess)\<close>. Both loops run over \<open>range(5)\<close>; indexing a
  string shorter than five raises \<open>IndexError\<close> in the first loop, which is the value
  \<open>None\<close> here. Letters beyond the fifth are never compared in place but are still seen
  by the \<open>in target_list\<close> test, as in the source.
\<close>

definition format_guess_result :: "'a list \<Rightarrow> 'a list \<Rightarrow> marker list option" where
  "format_guess_result target guess =
     (if length target < 5 \<or> length guess < 5 then None
      else
        let s0 = (map Some target, map Some guess, replicate 5 None);
            s1 = fold green_step [0..<5] s0;
            s2 = fold yellow_step [0..<5] s1
        in Some (join_emoji (snd (snd s2))))"

text \<open>
  Counting, for the statement of the scoring properties: the positions marked
  present-elsewhere whose guess letter is \<open>c\<close>, and the positions matched exactly whose
  target letter is \<open>c\<close>.
\<close>

definition present_count :: "marker list \<Rightarrow> 'a list \<Rightarrow> 'a \<Rightarrow> nat" where
  "present_count ms guess c = length (filter (\<lambda>i. ms ! i = Present \<and> guess ! i = c) [0..<5])"

definition exact_count :: "'a list \<Rightarrow> 'a list \<Rightarrow> 'a \<Rightarrow> nat" where
  "exact_count target guess c =
     length (filter (\<lambda>i. guess ! i = target ! i \<and> target ! i = c) [0..<5])"

text \<open>
  The loop invariant of the second loop after \<open>k\<close> rounds, for a target \<open>T\<close> and a guess
  \<open>G\<close> scored on their first \<open>n\<close> positions: the exact positions are settled, every position
  below \<open>k\<close> is marked, and each present-elsewhere mark has consumed one unconsumed
  occurrence of its letter in the target.
\<close>

definition yellow_inv :: "'a list \<Rightarrow> 'a list \<Rightarrow> nat \<Rightarrow> nat \<Rightarrow> 'a fstate \<Rightarrow> bool" where
  "yellow_inv T G n k s =
     (case s of (ts, gs, r) \<Rightarrow>
        length ts = length T \<and>
        gs = map (\<lambda>i. if i < n \<and> G ! i = T ! i then None else Some (G ! i)) [0..<length G] \<and>
        length r = n \<and>
        (\<forall>i<n. r ! i = Some Exact \<longleftrightarrow> G ! i = T ! i) \<and>
        (\<forall>i<n. i < k \<longrightarrow> r ! i \<noteq> None) \<and>
        (\<forall>i<n. k \<le> i \<longrightarrow> G ! i \<noteq> T ! i \<longrightarrow> r ! i = None) \<and>
        (\<forall>c. count_list ts (Some c)
               + card {i. i < n \<and> r ! i = Some Present \<and> G ! i = c}
               + card {i. i < n \<and> G ! i = T ! i \<and> T ! i = c} = count_list T c))"

section \<open>Word Seek: texts\<close>

text \<open>
  A Python \<open>str\<close> is a sequence of Unicode code points and \<open>len\<close> counts them, so a
  message text and a target word are lists of code points. Display names, chat titles and
  the filter names of the leaderboard are only stored and compared, and stay \<open>string\<close>.
  \<open>lit\<close> reads an ASCII literal of the source as a text.
\<close>

type_synonym str = "nat list"

definition lit :: "string \<Rightarrow> str" where
  "lit s = map of_char s"

text \<open>
  \<open>str.strip\<close>, \<open>str.upper\<close> and \<open>str.isalpha\<close> belong to Python's library and are given
  by the Unicode tables, not by this program. The handlers take the three functions as a
  parameter, and every property of the handlers below is proved for all such functions:
  none depends on which characters count as whitespace or as letters, or on what \<open>upper\<close>
  does to a text.
\<close>

record str_lib =
  py_strip :: "str \<Rightarrow> str"
  py_upper :: "str \<Rightarrow> str"
  py_isalpha :: "str \<Rightarrow> bool"

section \<open>Word Seek: the persistent store\<close>

text \<open>
  A row of the table \<open>scores\<close>. \<open>recorded_at\<close> is a time in seconds; the column
  defaults to the time of insertion.
\<close>

record score_row =
  sr_user_id :: int
  sr_user_name :: string
  sr_points :: int
  sr_chat_id :: int
  sr_recorded_at :: int

text \<open>
  The store as the handlers meet it: either \<open>db_connect\<close> returns no connection
  (\<open>DATABASE_URL\<close> unset, or connecting raises), or a connection on which executing a
  statement raises, or a working connection; the condition is taken to be the same for
  every call within one run of a handler. The tables are \<open>scores\<close> and \<open>chats\<close>
  (chat id and title, the chat id being the primary key).
\<close>

datatype db_status = Up | NoConnection | QueryFails

record database =
  status :: db_status
  scores :: "score_row list"
  chats :: "(int \<times> string) list"

text \<open>\<open>db_connect\<close>: whether a connection object comes back.\<close>

definition db_connect :: "database \<Rightarrow> bool" where
  "db_connect d = (status d \<noteq> NoConnection)"

text \<open>
  \<open>db_add_score\<close>: returns at once without a connection; an exception of the
  \<open>INSERT\<close> is caught and logged, and nothing is written.
\<close>

definition db_add_score :: "int \<Rightarrow> int \<Rightarrow> string \<Rightarrow> int \<Rightarrow> int \<Rightarrow> database \<Rightarrow> database" where
  "db_add_score now user_id name points chat_id d =
     (if \<not> db_connect d then d
      else if status d = QueryFails then d
      else d\<lparr>scores := scores d @
             [\<lparr>sr_user_id = user_id, sr_user_name = name, sr_points = points,
               sr_chat_id = chat_id, sr_recorded_at = now\<rparr>]\<rparr>)"

text \<open>\<open>db_add_chat_id\<close>: \<open>INSERT ... ON CONFLICT (chat_id) DO NOTHING\<close>.\<close>

definition db_add_chat_id :: "int \<Rightarrow> string \<Rightarrow> database \<Rightarrow> database" where
  "db_add_chat_id chat_id chat_title d =
     (if \<not> db_connect d then d
      else if status d = QueryFails then d
      else if chat_id \<in> set (map fst (chats d)) then d
      else d\<lparr>chats := chats d @ [(chat_id, chat_title)]\<rparr>)"

text \<open>\<open>db_get_all_chat_ids\<close>: the empty list on any failure.\<close>

definition db_get_all_chat_ids :: "database \<Rightarrow> int list" where
  "db_get_all_chat_ids d =
     (if \<not> db_connect d then []
      else if status d = QueryFails then []
      else map fst (chats d))"

subsection \<open>The leaderboard query\<close>

text \<open>
  The two fragments of the \<open>WHERE\<close> clause. \<open>CURRENT_DATE\<close> is the start of the day of
  \<open>now\<close>; any other value of \<open>time_filter\<close> or \<open>scope\<close> adds no condition.
\<close>

definition current_date :: "int \<Rightarrow> int" where
  "current_date now = now - now mod 86400"

definition time_condition :: "string \<Rightarrow> int \<Rightarrow> score_row \<Rightarrow> bool" where
  "time_condition time_filter now r =
     (if time_filter = ''today'' then current_date now \<le> sr_recorded_at r
      else if time_filter = ''week'' then current_date now - 7 * 86400 \<le> sr_recorded_at r
      else True)"

definition scope_condition :: "string \<Rightarrow> int \<Rightarrow> score_row \<Rightarrow> bool" where
  "scope_condition scope chat_id r = (if scope = ''local'' then sr_chat_id r = chat_id else True)"

definition matching_rows :: "score_row list \<Rightarrow> int \<Rightarrow> string \<Rightarrow> string \<Rightarrow> int \<Rightarrow> score_row list" where
  "matching_rows rows now time_filter scope chat_id =
     filter (\<lambda>r. scope_condition scope chat_id r \<and> time_condition time_filter now r) rows"

text \<open>\<open>SUM(points)\<close> of one group of \<open>GROUP BY user_id, user_name\<close>.\<close>

definition group_total :: "score_row list \<Rightarrow> int \<Rightarrow> string \<Rightarrow> int" where
  "group_total rows u n =
     sum_list (map sr_points (filter (\<lambda>r. sr_user_id r = u \<and> sr_user_name r = n) rows))"

text \<open>
  The statement that \<open>db_get_leaderboard\<close> executes: one result row
  \<open>(user_id, user_name, total_points)\<close> per group of \<open>GROUP BY user_id, user_name\<close>,
  ordered by \<open>total_points DESC\<close>, \<open>LIMIT 10\<close>. SQL leaves the order of groups with equal
  totals open; the model orders them by a stable sort of the groups in order of last
  appearance, and no property below depends on that choice.
\<close>

definition leaderboard_query :: "score_row list \<Rightarrow> int \<Rightarrow> string \<Rightarrow> string \<Rightarrow> int \<Rightarrow> (int \<times> string \<times> int) list" where
  "leaderboard_query rows now time_filter scope chat_id =
     (let matching = matching_rows rows now time_filter scope chat_id;
          groups = remdups (map (\<lambda>r. (sr_user_id r, sr_user_name r)) matching);
          totals = map (\<lambda>(u, n). (u, n, group_total matching u n)) groups
      in take 10 (sort_key (\<lambda>(u, n, t). - t) totals))"

text \<open>
  \<open>db_get_leaderboard\<close>: without a connection it returns \<open>[], {}\<close> at once; when
  \<open>cur.execute\<close> raises, the exception is caught with both results still empty; otherwise
  the loop over the fetched rows fills \<open>sorted_scores\<close> and \<open>user_names\<close>.
\<close>

definition db_get_leaderboard :: "int \<Rightarrow> string \<Rightarrow> string \<Rightarrow> int \<Rightarrow> database \<Rightarrow> (int \<times> int) list \<times> (int \<rightharpoonup> string)" where
  "db_get_leaderboard now time_filter scope chat_id d =
     (if \<not> db_connect d then ([], Map.empty)
      else if status d = QueryFails then ([], Map.empty)
      else
        let results = leaderboard_query (scores d) now time_filter scope chat_id
        in (map (\<lambda>(user_id, user_name, total_points). (user_id, total_points)) results,
            fold (\<lambda>(user_id, user_name, total_points) user_names. user_names(user_id \<mapsto> user_name))
              results Map.empty))"

section \<open>Word Seek: sessions and handlers\<close>

text \<open>A value of \<open>user_games\<close>: the game of one chat.\<close>

record game =
  word :: str
  attempts :: int
  active :: bool
  history :: "(str \<times> marker list) list"
  guessed_words :: "str set"

text \<open>The process state: the dictionary \<open>user_games\<close> and the store.\<close>

record world =
  user_games :: "int \<rightharpoonup> game"
  db :: database

text \<open>What a handler sends back with \<open>reply_text\<close>.\<close>

datatype reply =
    AlreadyActive
  | GameStarted
  | GameStopped str
  | NoActiveGame
  | DuplicateGuess str
  | FormatError
  | WinMessage string int int "(str \<times> marker list) list"
  | ProgressMessage "(str \<times> marker list) list" int int
  | AccessDenied
  | BroadcastUsage
  | BroadcastTypeError
  | BroadcastComplete str nat nat

text \<open>
  How \<open>process_message\<close> ends: with a reply, with no reply, or with the \<open>IndexError\<close>
  that \<open>format_guess_result\<close> raises on a target shorter than five characters.
\<close>

datatype outcome = Replied reply | Silent | Raised_IndexError

text \<open>
  \<open>get_random_5_letter_word\<close>. The remote lookup and \<open>random.choice\<close> are inputs:
  \<open>api_word\<close> is the word of a successful response (\<open>None\<close> on any failure), \<open>pick\<close> the
  index that \<open>random.choice\<close> draws.
\<close>

definition fallback_words :: "str list" where
  "fallback_words =
     map lit [''APPLE'', ''BRAIN'', ''CHAIR'', ''DREAM'', ''EAGLE'', ''GHOST'', ''LIGHT'', ''MUSIC'']"

definition get_random_5_letter_word :: "str_lib \<Rightarrow> str option \<Rightarrow> nat \<Rightarrow> str" where
  "get_random_5_letter_word py api_word pick =
     (case api_word of
        Some w \<Rightarrow> py_upper py w
      | None \<Rightarrow> py_upper py (fallback_words ! (pick mod length fallback_words)))"

text \<open>\<open>chat_id in user_games and user_games[chat_id]["active"]\<close>.\<close>

definition is_game_active :: "world \<Rightarrow> int \<Rightarrow> bool" where
  "is_game_active w chat_id =
     (case user_games w chat_id of None \<Rightarrow> False | Some g \<Rightarrow> active g)"

definition game_command :: "str_lib \<Rightarrow> str option \<Rightarrow> nat \<Rightarrow> int \<Rightarrow> world \<Rightarrow> reply \<times> world" where
  "game_command py api_word pick chat_id w =
     (if is_game_active w chat_id then (AlreadyActive, w)
      else
        (GameStarted,
         w\<lparr>user_games := (user_games w)(chat_id \<mapsto>
              \<lparr>word = get_random_5_letter_word py api_word pick, attempts = 0, active = True,
               history = [], guessed_words = {}\<rparr>)\<rparr>))"

definition stop_command :: "int \<Rightarrow> world \<Rightarrow> reply \<times> world" where
  "stop_command chat_id w =
     (case user_games w chat_id of
        None \<Rightarrow> (NoActiveGame, w)
      | Some g \<Rightarrow>
          if active g
          then (GameStopped (word g), w\<lparr>user_games := (user_games w)(chat_id := None)\<rparr>)
          else (NoActiveGame, w))"

text \<open>\<open>next((score for uid, score in data if uid == user_id), fallback)\<close>.\<close>

definition first_score :: "(int \<times> int) list \<Rightarrow> int \<Rightarrow> int \<Rightarrow> int" where
  "first_score data user_id fallback =
     (case filter (\<lambda>(uid, score). uid = user_id) data of
        [] \<Rightarrow> fallback
      | (uid, score) # _ \<Rightarrow> score)"

text \<open>
  \<open>process_message\<close>. \<open>msg_text\<close> is \<open>update.effective_message.text\<close> (\<open>None\<close> when the
  update carries no message or no text); the empty text is falsy and leaves at the first
  guard as well. \<open>text\<close> is \<open>msg_text.strip().upper()\<close>. \<open>now\<close> is the time of the call.
  Sending the reply is taken to succeed.
\<close>

definition process_message :: "str_lib \<Rightarrow> int \<Rightarrow> str option \<Rightarrow> int \<Rightarrow> string \<Rightarrow> int \<Rightarrow> world \<Rightarrow> outcome \<times> world" where
  "process_message py now msg_text user_id first_name chat_id w =
     (case msg_text of
        None \<Rightarrow> (Silent, w)
      | Some raw \<Rightarrow>
          if raw = [] then (Silent, w)
          else
            let text = py_upper py (py_strip py raw) in
            if is_game_active w chat_id \<and> length text = 5 \<and> py_isalpha py text then
              (case user_games w chat_id of
                 None \<Rightarrow> (Silent, w)
               | Some game \<Rightarrow>
                   if text \<in> guessed_words game then (Replied (DuplicateGuess text), w)
                   else
                     let game1 = game\<lparr>guessed_words := insert text (guessed_words game),
                                      attempts := attempts game + 1\<rparr>
                     in
                     (case format_guess_result (word game1) text of
                        None \<Rightarrow>
                          (Raised_IndexError, w\<lparr>user_games := (user_games w)(chat_id \<mapsto> game1)\<rparr>)
                      | Some result_emoji \<Rightarrow>
                          let game2 = game1\<lparr>history := history game1 @ [(text, result_emoji)]\<rparr>;
                              w2 = w\<lparr>user_games := (user_games w)(chat_id \<mapsto> game2)\<rparr>;
                              score_change = (if text = word game2 then 5 else 0);
                              user_scores_data =
                                fst (db_get_leaderboard now ''all'' ''global'' chat_id (db w2));
                              current_total_score = first_score user_scores_data user_id 0
                          in
                          if text = word game2 then
                            let d = db_add_score now user_id first_name 5 chat_id (db w2);
                                w3 = w2\<lparr>user_games := (user_games w2)(chat_id := None), db := d\<rparr>;
                                final_score_data =
                                  fst (db_get_leaderboard now ''all'' ''global'' chat_id d);
                                final_total_score = first_score final_score_data user_id 5
                            in (Replied (WinMessage first_name (attempts game2) final_total_score
                                           (history game2)), w3)
                          else
                            (Replied (ProgressMessage (history game2) (attempts game2)
                                        (current_total_score + score_change)), w2)))
            else if is_game_active w chat_id \<and> (length text \<noteq> 5 \<or> \<not> py_isalpha py text) then
              (Replied FormatError, w)
            else (Silent, w))"

section \<open>Word Seek: the broadcast dispatcher\<close>

text \<open>
  The message that \<open>/broadcast\<close> replies to. \<open>content_type\<close> is \<open>None\<close> when reading the
  attribute raises \<open>AttributeError\<close>.
\<close>

record message =
  message_id :: int
  content_type :: "str option"

text \<open>
  The loop over \<open>chat_ids\<close>. \<open>send_ok chat_id\<close> says whether the send to that chat
  returns without an exception. The loop carries \<open>success_count\<close> and, for the record,
  the chats it tried to send to.
\<close>

fun broadcast_loop :: "(int \<Rightarrow> bool) \<Rightarrow> int \<Rightarrow> int list \<Rightarrow> nat \<times> int list \<Rightarrow> nat \<times> int list" where
  "broadcast_loop send_ok current [] acc = acc"
| "broadcast_loop send_ok current (chat_id # rest) (success_count, attempted) =
     (if chat_id = current then broadcast_loop send_ok current rest (success_count, attempted)
      else if send_ok chat_id
      then broadcast_loop send_ok current rest (success_count + 1, attempted @ [chat_id])
      else broadcast_loop send_ok current rest (success_count, attempted @ [chat_id]))"

text \<open>
  \<open>broadcast_command\<close>, with the owner id \<open>AADII_USER_ID\<close> of the configuration as a
  parameter. It returns the reply and the chats a send was attempted to.
\<close>

definition broadcast_command :: "str_lib \<Rightarrow> int \<Rightarrow> (int \<Rightarrow> bool) \<Rightarrow> int \<Rightarrow> int \<Rightarrow> message option \<Rightarrow> world \<Rightarrow> reply \<times> int list" where
  "broadcast_command py aadii_user_id send_ok user_id current reply_to_message w =
     (if user_id \<noteq> aadii_user_id then (AccessDenied, [])
      else
        case reply_to_message of
          None \<Rightarrow> (BroadcastUsage, [])
        | Some message_to_broadcast \<Rightarrow>
            let chat_ids = db_get_all_chat_ids (db w);
                total_chats = length chat_ids
            in
            (case content_type message_to_broadcast of
               None \<Rightarrow> (BroadcastTypeError, [])
             | Some ct \<Rightarrow>
                 let (success_count, attempted) = broadcast_loop send_ok current chat_ids (0, [])
                 in (BroadcastComplete (py_upper py ct) success_count total_chats, attempted)))"

text \<open>Python's \<open>str\<close> of a non-negative integer, and the \<open>{success_count}/{total_chats}\<close>
  part of the final report.\<close>

fun str_nat :: "nat \<Rightarrow> string" where
  "str_nat n =
     (if n < 10 then [char_of (48 + n)] else str_nat (n div 10) @ [char_of (48 + n mod 10)])"

definition success_ratio :: "reply \<Rightarrow> string" where
  "success_ratio r =
     (case r of
        BroadcastComplete ct success_count total_chats \<Rightarrow>
          str_nat success_count @ ''/'' @ str_nat total_chats
      | _ \<Rightarrow> [])"

declare str_nat.simps [simp del]

section \<open>Invariants of the sessions\<close>

text \<open>
  What holds of every session in every state the handlers produce, whatever the library
  functions and the word source do: the target is not among the guessed words (guessing it
  ends the session), and every guessed word passed the format check of \<open>process_message\<close>.
\<close>

definition guesses_wf :: "str_lib \<Rightarrow> game \<Rightarrow> bool" where
  "guesses_wf py g =
     (word g \<notin> guessed_words g \<and>
      (\<forall>t \<in> guessed_words g. length t = 5 \<and> py_isalpha py t))"

definition sessions_wf :: "str_lib \<Rightarrow> world \<Rightarrow> bool" where
  "sessions_wf py w = (\<forall>c g. user_games w c = Some g \<longrightarrow> active g \<and> guesses_wf py g)"

text \<open>
  The states of a run: the process starts with no session; each handler that touches
  \<open>user_games\<close> takes a step; the store may change between two updates (by \<open>/start\<close>, or
  by becoming reachable or unreachable).
\<close>

inductive reachable :: "str_lib \<Rightarrow> world \<Rightarrow> bool" for py :: str_lib where
  start: "reachable py \<lparr>user_games = Map.empty, db = d\<rparr>"
| game: "reachable py w \<Longrightarrow> reachable py (snd (game_command py api_word pick chat_id w))"
| stop: "reachable py w \<Longrightarrow> reachable py (snd (stop_command chat_id w))"
| guess: "reachable py w \<Longrightarrow>
          reachable py (snd (process_message py now msg_text user_id first_name chat_id w))"
| store: "reachable py w \<Longrightarrow> reachable py (w\<lparr>db := d\<rparr>)"

text \<open>The row that \<open>db_add_score(user_id, first_name, 5, chat_id)\<close> inserts on a win.\<close>

definition win_row :: "int \<Rightarrow> int \<Rightarrow> string \<Rightarrow> int \<Rightarrow> score_row" where
  "win_row now user_id first_name chat_id =
     \<lparr>sr_user_id = user_id, sr_user_name = first_name, sr_points = 5,
      sr_chat_id = chat_id, sr_recorded_at = now\<rparr>"

section \<open>Example states\<close>

text \<open>A store in which user 42 has won twice, under two display names.\<close>

definition two_names_db :: database where
  "two_names_db =
     \<lparr>status = Up,
      scores = [\<lparr>sr_user_id = 42, sr_user_name = ''Ann'', sr_points = 5, sr_chat_id = 7,
                 sr_recorded_at = 100\<rparr>,
                \<lparr>sr_user_id = 42, sr_user_name = ''Anna'', sr_points = 5, sr_chat_id = 7,
                 sr_recorded_at = 200\<rparr>],
      chats = []\<rparr>"

text \<open>
  To run the examples, whose texts are all ASCII: the three library functions as they are
  on ASCII text (whitespace is 9 to 13 and 28 to 32, the letters are \<open>A\<close> to \<open>Z\<close> and \<open>a\<close>
  to \<open>z\<close>). No theorem about the handlers is restricted to them.
\<close>

definition ascii_isspace :: "nat \<Rightarrow> bool" where
  "ascii_isspace n = (n \<in> {9, 10, 11, 12, 13, 28, 29, 30, 31, 32})"

definition ascii_isletter :: "nat \<Rightarrow> bool" where
  "ascii_isletter n = ((65 \<le> n \<and> n \<le> 90) \<or> (97 \<le> n \<and> n \<le> 122))"

definition ascii_lib :: str_lib where
  "ascii_lib =
     \<lparr>py_strip = (\<lambda>s. rev (dropWhile ascii_isspace (rev (dropWhile ascii_isspace s)))),
      py_upper = map (\<lambda>n. if 97 \<le> n \<and> n \<le> 122 then n - 32 else n),
      py_isalpha = (\<lambda>s. s \<noteq> [] \<and> list_all ascii_isletter s)\<rparr>"

text \<open>
  A chat (id 7) in the middle of a game with target \<open>APPLE\<close>, after the guess \<open>ALLEY\<close>; a
  store with three wins and five registered chats; the same state with the store
  unreachable; and a text message to broadcast.
\<close>

definition demo_game :: game where
  "demo_game =
     \<lparr>word = lit ''APPLE'', attempts = 1, active = True,
      history = [(lit ''ALLEY'', [Exact, Present, Absent, Present, Absent])],
      guessed_words = {lit ''ALLEY''}\<rparr>"

definition demo_db :: database where
  "demo_db =
     \<lparr>status = Up,
      scores = [\<lparr>sr_user_id = 42, sr_user_name = ''Ann'', sr_points = 5, sr_chat_id = 7,
                 sr_recorded_at = 100\<rparr>,
                \<lparr>sr_user_id = 43, sr_user_name = ''Bob'', sr_points = 5, sr_chat_id = 8,
                 sr_recorded_at = 150\<rparr>,
                \<lparr>sr_user_id = 42, sr_user_name = ''Ann'', sr_points = 5, sr_chat_id = 8,
                 sr_recorded_at = 200\<rparr>],
      chats = [(1, ''one''), (2, ''two''), (3, ''three''), (4, ''four''), (5, ''five'')]\<rparr>"

definition demo_world :: world where
  "demo_world = \<lparr>user_games = [7 \<mapsto> demo_game], db = demo_db\<rparr>"

definition demo_world_down :: world where
  "demo_world_down = \<lparr>user_games = [7 \<mapsto> demo_game], db = demo_db\<lparr>status := NoConnection\<rparr>\<rparr>"

definition demo_message :: message where
  "demo_message = \<lparr>message_id = 11, content_type = Some (lit ''text'')\<rparr>"

section \<open>Properties of the scoring engine\<close>

subsection \<open>The two loops\<close>

lemma pass1_state:
  assumes "n \<le> length T" "n \<le> length G" "k \<le> n"
  shows "fold green_step [0..<k] (map Some T, map Some G, replicate n None) =
     (map (\<lambda>i. if i < k \<and> G ! i = T ! i then None else Some (T ! i)) [0..<length T],
      map (\<lambda>i. if i < k \<and> G ! i = T ! i then None else Some (G ! i)) [0..<length G],
      map (\<lambda>i. if i < k \<and> G ! i = T ! i then Some Exact else None) [0..<n])"
  using assms(3)
proof (induction k)
  case 0
  have "map Some T = map (\<lambda>i. Some (T ! i)) [0..<length T]"
    by (rule nth_equalityI) simp_all
  moreover have "map Some G = map (\<lambda>i. Some (G ! i)) [0..<length G]"
    by (rule nth_equalityI) simp_all
  moreover have "replicate n None = map (\<lambda>i. None :: marker option) [0..<n]"
    by (rule nth_equalityI) simp_all
  ultimately show ?case by simp
next
  case (Suc k)
  then have k: "k < n" by simp
  with assms have kT: "k < length T" and kG: "k < length G" by simp_all
  have IH: "fold green_step [0..<k] (map Some T, map Some G, replicate n None) =
     (map (\<lambda>i. if i < k \<and> G ! i = T ! i then None else Some (T ! i)) [0..<length T],
      map (\<lambda>i. if i < k \<and> G ! i = T ! i then None else Some (G ! i)) [0..<length G],
      map (\<lambda>i. if i < k \<and> G ! i = T ! i then Some Exact else None) [0..<n])"
    using Suc by simp
  show ?case
  proof (cases "G ! k = T ! k")
    case True
    have a: "(map (\<lambda>i. if i < k \<and> G ! i = T ! i then None else Some (T ! i)) [0..<length T])[k := None]
       = map (\<lambda>i. if i < Suc k \<and> G ! i = T ! i then None else Some (T ! i)) [0..<length T]"
      using True kT by (intro nth_equalityI) (auto simp: nth_list_update less_Suc_eq)
    have b: "(map (\<lambda>i. if i < k \<and> G ! i = T ! i then None else Some (G ! i)) [0..<length G])[k := None]
       = map (\<lambda>i. if i < Suc k \<and> G ! i = T ! i then None else Some (G ! i)) [0..<length G]"
      using True kG by (intro nth_equalityI) (auto simp: nth_list_update less_Suc_eq)
    have c: "(map (\<lambda>i. if i < k \<and> G ! i = T ! i then Some Exact else None) [0..<n])[k := Some Exact]
       = map (\<lambda>i. if i < Suc k \<and> G ! i = T ! i then Some Exact else None) [0..<n]"
      using True k by (intro nth_equalityI) (auto simp: nth_list_update less_Suc_eq)
    have "fold green_step [0..<Suc k] (map Some T, map Some G, replicate n None)
        = green_step k (fold green_step [0..<k] (map Some T, map Some G, replicate n None))"
      by simp
    also have "\<dots> = green_step k
     (map (\<lambda>i. if i < k \<and> G ! i = T ! i then None else Some (T ! i)) [0..<length T],
      map (\<lambda>i. if i < k \<and> G ! i = T ! i then None else Some (G ! i)) [0..<length G],
      map (\<lambda>i. if i < k \<and> G ! i = T ! i then Some Exact else None) [0..<n])"
      by (simp only: IH)
    also have "\<dots> = (map (\<lambda>i. if i < Suc k \<and> G ! i = T ! i then None else Some (T ! i)) [0..<length T],
      map (\<lambda>i. if i < Suc k \<and> G ! i = T ! i then None else Some (G ! i)) [0..<length G],
      map (\<lambda>i. if i < Suc k \<and> G ! i = T ! i then Some Exact else None) [0..<n])"
      unfolding green_step_def using True kT kG a b c by simp
    finally show ?thesis .
  next
    case False
    have a: "map (\<lambda>i. if i < k \<and> G ! i = T ! i then None else Some (T ! i)) [0..<length T]
       = map (\<lambda>i. if i < Suc k \<and> G ! i = T ! i then None else Some (T ! i)) [0..<length T]"
      using False by (intro nth_equalityI) (auto simp: less_Suc_eq)
    have b: "map (\<lambda>i. if i < k \<and> G ! i = T ! i then None else Some (G ! i)) [0..<length G]
       = map (\<lambda>i. if i < Suc k \<and> G ! i = T ! i then None else Some (G ! i)) [0..<length G]"
      using False by (intro nth_equalityI) (auto simp: less_Suc_eq)
    have c: "map (\<lambda>i. if i < k \<and> G ! i = T ! i then Some Exact else None) [0..<n]
       = map (\<lambda>i. if i < Suc k \<and> G ! i = T ! i then Some Exact else None) [0..<n]"
      using False by (intro nth_equalityI) (auto simp: less_Suc_eq)
    have "fold green_step [0..<Suc k] (map Some T, map Some G, replicate n None)
        = green_step k (fold green_step [0..<k] (map Some T, map Some G, replicate n None))"
      by simp
    also have "\<dots> = green_step k
     (map (\<lambda>i. if i < k \<and> G ! i = T ! i then None else Some (T ! i)) [0..<length T],
      map (\<lambda>i. if i < k \<and> G ! i = T ! i then None else Some (G ! i)) [0..<length G],
      map (\<lambda>i. if i < k \<and> G ! i = T ! i then Some Exact else None) [0..<n])"
      by (simp only: IH)
    also have "\<dots> = (map (\<lambda>i. if i < Suc k \<and> G ! i = T ! i then None else Some (T ! i)) [0..<length T],
      map (\<lambda>i. if i < Suc k \<and> G ! i = T ! i then None else Some (G ! i)) [0..<length G],
      map (\<lambda>i. if i < Suc k \<and> G ! i = T ! i then Some Exact else None) [0..<n])"
      unfolding green_step_def using False kT kG a b c by simp
    finally show ?thesis .
  qed
qed

lemma count_list_update_index:
  "x \<in> set xs \<Longrightarrow> x \<noteq> y \<Longrightarrow>
   count_list (xs[index_of x xs := y]) z + (if z = x then 1 else 0)
     = count_list xs z + (if z = y then 1 else 0)"
  by (induction xs) auto

lemma length_filter_upt_card:
  "length (filter P [0..<n]) = card {i. i < n \<and> P i}"
proof -
  have "{i. i < n \<and> P ([0..<n] ! i)} = {i. i < n \<and> P i}" by auto
  then show ?thesis by (simp add: length_filter_conv_card)
qed


lemma count_list_card: "count_list xs x = card {i. i < length xs \<and> xs ! i = x}"
proof -
  have "{i. i < length xs \<and> x = xs ! i} = {i. i < length xs \<and> xs ! i = x}" by auto
  then show ?thesis by (simp add: count_list_eq_length_filter length_filter_conv_card)
qed

lemma count_list_map_upt: "count_list (map f [0..<m]) y = card {i. i < m \<and> f i = y}"
proof -
  have "{i. i < length (map f [0..<m]) \<and> map f [0..<m] ! i = y} = {i. i < m \<and> f i = y}"
    by (rule Collect_cong) (auto simp del: upt_Suc)
  then show ?thesis unfolding count_list_card by simp
qed

lemma pass1_count:
  assumes "n \<le> length T"
  shows "count_list (map (\<lambda>i. if i < n \<and> G ! i = T ! i then None else Some (T ! i)) [0..<length T]) (Some c)
           + card {i. i < n \<and> G ! i = T ! i \<and> T ! i = c} = count_list T c"
proof -
  let ?A = "{i. i < length T \<and> \<not> (i < n \<and> G ! i = T ! i) \<and> T ! i = c}"
  let ?B = "{i. i < n \<and> G ! i = T ! i \<and> T ! i = c}"
  have fin: "finite ?A" "finite ?B" by simp_all
  have disj: "?A \<inter> ?B = {}" by auto
  have un: "?A \<union> ?B = {i. i < length T \<and> T ! i = c}" using assms by auto
  have a: "count_list (map (\<lambda>i. if i < n \<and> G ! i = T ! i then None else Some (T ! i)) [0..<length T]) (Some c)
          = card ?A"
    unfolding count_list_map_upt by (rule arg_cong [where f = card]) auto
  have "card ?A + card ?B = card (?A \<union> ?B)"
    by (rule card_Un_disjoint [OF fin disj, symmetric])
  also have "\<dots> = count_list T c"
    unfolding un count_list_card ..
  finally show ?thesis unfolding a .
qed

lemma yellow_inv_init:
  assumes nT: "n \<le> length T" and nG: "n \<le> length G"
  shows "yellow_inv T G n 0 (fold green_step [0..<n] (map Some T, map Some G, replicate n None))"
proof -
  let ?ts = "map (\<lambda>i. if i < n \<and> G ! i = T ! i then None else Some (T ! i)) [0..<length T]"
  let ?gs = "map (\<lambda>i. if i < n \<and> G ! i = T ! i then None else Some (G ! i)) [0..<length G]"
  let ?r = "map (\<lambda>i. if i < n \<and> G ! i = T ! i then Some Exact else None) [0..<n]"
  have st: "fold green_step [0..<n] (map Some T, map Some G, replicate n None) = (?ts, ?gs, ?r)"
    by (rule pass1_state [OF nT nG order_refl])
  have 1: "\<forall>i<n. ?r ! i = Some Exact \<longleftrightarrow> G ! i = T ! i"
    by simp
  have 3: "\<forall>i<n. 0 \<le> i \<longrightarrow> G ! i \<noteq> T ! i \<longrightarrow> ?r ! i = None"
    by simp
  have 4: "\<forall>c. count_list ?ts (Some c)
               + card {i. i < n \<and> ?r ! i = Some Present \<and> G ! i = c}
               + card {i. i < n \<and> G ! i = T ! i \<and> T ! i = c} = count_list T c"
  proof
    fix c
    have "{i. i < n \<and> ?r ! i = Some Present \<and> G ! i = c} = {}"
      by (auto split: if_splits)
    then have "card {i. i < n \<and> ?r ! i = Some Present \<and> G ! i = c} = 0"
      by (simp only: card.empty)
    then show "count_list ?ts (Some c)
               + card {i. i < n \<and> ?r ! i = Some Present \<and> G ! i = c}
               + card {i. i < n \<and> G ! i = T ! i \<and> T ! i = c} = count_list T c"
      using pass1_count [OF nT, of G c] by (simp only: add_0_right)
  qed
  show ?thesis
    unfolding st yellow_inv_def prod.case
    using 1 3 4 by (intro conjI) simp_all
qed

lemma index_of_less: "x \<in> set xs \<Longrightarrow> index_of x xs < length xs"
  by (induction xs) auto

lemma yellow_inv_step:
  assumes inv: "yellow_inv T G n k s" and k: "k < n" and nG: "n \<le> length G"
  shows "yellow_inv T G n (Suc k) (yellow_step k s)"
proof -
  obtain ts gs r where s: "s = (ts, gs, r)" by (cases s) auto
  from inv s have len: "length ts = length T" "length r = n"
    and gs: "gs = map (\<lambda>i. if i < n \<and> G ! i = T ! i then None else Some (G ! i)) [0..<length G]"
    and ex: "\<forall>i<n. r ! i = Some Exact \<longleftrightarrow> G ! i = T ! i"
    and marked: "\<forall>i<n. i < k \<longrightarrow> r ! i \<noteq> None"
    and todo: "\<forall>i<n. k \<le> i \<longrightarrow> G ! i \<noteq> T ! i \<longrightarrow> r ! i = None"
    and cnt: "\<forall>c. count_list ts (Some c)
               + card {i. i < n \<and> r ! i = Some Present \<and> G ! i = c}
               + card {i. i < n \<and> G ! i = T ! i \<and> T ! i = c} = count_list T c"
    by (simp_all add: yellow_inv_def)
  have kG: "k < length G" using k nG by simp
  have glk: "gs ! k = (if G ! k = T ! k then None else Some (G ! k))"
    using gs kG k by simp
  show ?thesis
  proof (cases "r ! k = None")
    case False
    have "\<forall>i<n. i < Suc k \<longrightarrow> r ! i \<noteq> None"
      using marked False by (auto simp: less_Suc_eq)
    moreover have "\<forall>i<n. Suc k \<le> i \<longrightarrow> G ! i \<noteq> T ! i \<longrightarrow> r ! i = None"
      using todo by auto
    moreover have "yellow_step k s = (ts, gs, r)"
    proof -
      from False obtain m where "r ! k = Some m" by auto
      then show ?thesis by (simp add: s yellow_step_def)
    qed
    ultimately show ?thesis
      using len gs ex cnt by (simp add: yellow_inv_def)
  next
    case True
    then have ne: "G ! k \<noteq> T ! k" using ex k by auto
    then have glk': "gs ! k = Some (G ! k)" using glk by simp
    show ?thesis
    proof (cases "Some (G ! k) \<in> set ts")
      case False
      let ?r = "r[k := Some Absent]"
      have st: "yellow_step k s = (ts, gs, ?r)"
        using True False glk' by (simp add: s yellow_step_def)
      have 1: "\<forall>i<n. ?r ! i = Some Exact \<longleftrightarrow> G ! i = T ! i"
        using ex ne len k by (auto simp: nth_list_update)
      have 2: "\<forall>i<n. i < Suc k \<longrightarrow> ?r ! i \<noteq> None"
        using marked len k by (auto simp: nth_list_update less_Suc_eq)
      have 3: "\<forall>i<n. Suc k \<le> i \<longrightarrow> G ! i \<noteq> T ! i \<longrightarrow> ?r ! i = None"
        using todo len k by (auto simp: nth_list_update)
      have "{i. i < n \<and> ?r ! i = Some Present \<and> G ! i = c}
              = {i. i < n \<and> r ! i = Some Present \<and> G ! i = c}" for c
        using True len k by (auto simp: nth_list_update split: if_splits)
      then have 4: "\<forall>c. count_list ts (Some c)
               + card {i. i < n \<and> ?r ! i = Some Present \<and> G ! i = c}
               + card {i. i < n \<and> G ! i = T ! i \<and> T ! i = c} = count_list T c"
        using cnt by simp
      show ?thesis
        unfolding st yellow_inv_def using len gs 1 2 3 4 by simp
    next
      case inT: True
      let ?r = "r[k := Some Present]"
      let ?ts = "ts[index_of (Some (G ! k)) ts := None]"
      have st: "yellow_step k s = (?ts, gs, ?r)"
        using True inT glk' by (simp add: s yellow_step_def)
      have 1: "\<forall>i<n. ?r ! i = Some Exact \<longleftrightarrow> G ! i = T ! i"
        using ex ne len k by (auto simp: nth_list_update)
      have 2: "\<forall>i<n. i < Suc k \<longrightarrow> ?r ! i \<noteq> None"
        using marked len k by (auto simp: nth_list_update less_Suc_eq)
      have 3: "\<forall>i<n. Suc k \<le> i \<longrightarrow> G ! i \<noteq> T ! i \<longrightarrow> ?r ! i = None"
        using todo len k by (auto simp: nth_list_update)
      have 4: "count_list ?ts (Some c)
               + card {i. i < n \<and> ?r ! i = Some Present \<and> G ! i = c}
               + card {i. i < n \<and> G ! i = T ! i \<and> T ! i = c} = count_list T c" for c
      proof -
        let ?S = "{i. i < n \<and> r ! i = Some Present \<and> G ! i = c}"
        have ts: "count_list ?ts (Some c) + (if c = G ! k then 1 else 0) = count_list ts (Some c)"
          using count_list_update_index [OF inT, of None "Some c"] by simp
        have kS: "k \<notin> ?S" using True by simp
        have "{i. i < n \<and> ?r ! i = Some Present \<and> G ! i = c}
                = (if c = G ! k then insert k ?S else ?S)"
          using True len k by (auto simp: nth_list_update split: if_splits)
        moreover have "card (insert k ?S) = Suc (card ?S)"
          by (rule card_insert_disjoint [OF _ kS]) simp
        ultimately have "card {i. i < n \<and> ?r ! i = Some Present \<and> G ! i = c}
                = card ?S + (if c = G ! k then 1 else 0)"
          by (cases "c = G ! k") simp_all
        moreover have "count_list ts (Some c) + card ?S
               + card {i. i < n \<and> G ! i = T ! i \<and> T ! i = c} = count_list T c"
          using cnt by simp
        ultimately show ?thesis
          using ts by (cases "c = G ! k") simp_all
      qed
      show ?thesis
        unfolding st yellow_inv_def using len gs 1 2 3 4 by simp
    qed
  qed
qed

lemma yellow_inv_fold:
  assumes "yellow_inv T G n 0 s" "n \<le> length G" "k \<le> n"
  shows "yellow_inv T G n k (fold yellow_step [0..<k] s)"
  using assms(3)
proof (induction k)
  case 0
  then show ?case using assms(1) by simp
next
  case (Suc k)
  then have "yellow_inv T G n k (fold yellow_step [0..<k] s)" and "k < n" by simp_all
  from yellow_inv_step [OF this assms(2)] show ?case by simp
qed

lemma join_emoji_all_set:
  "\<forall>i<length r. r ! i \<noteq> None \<Longrightarrow> join_emoji r = map the r"
proof (induction r)
  case Nil
  show ?case by (simp add: join_emoji_def)
next
  case (Cons a r)
  from Cons.prems have "a \<noteq> None" by auto
  moreover from Cons.prems have "\<forall>i<length r. r ! i \<noteq> None" by auto
  ultimately show ?case using Cons.IH by (auto simp: join_emoji_def)
qed


lemma format_guess_result_pattern:
  assumes T: "5 \<le> length T" and G: "5 \<le> length G"
  shows "\<exists>ms. format_guess_result T G = Some ms \<and> length ms = 5 \<and>
           (\<forall>i<5. ms ! i = Exact \<longleftrightarrow> G ! i = T ! i) \<and>
           (\<forall>c. card {i. i < 5 \<and> ms ! i = Present \<and> G ! i = c}
                  + card {i. i < 5 \<and> G ! i = T ! i \<and> T ! i = c} \<le> count_list T c)"
proof -
  let ?s1 = "fold green_step [0..<5] (map Some T, map Some G, replicate 5 None)"
  let ?s2 = "fold yellow_step [0..<5] ?s1"
  obtain ts gs r where s2: "?s2 = (ts, gs, r)" by (cases ?s2) auto
  have "yellow_inv T G 5 5 ?s2"
    by (rule yellow_inv_fold [OF yellow_inv_init [OF T G] G order_refl])
  then have len: "length r = 5"
    and ex: "\<forall>i<5. r ! i = Some Exact \<longleftrightarrow> G ! i = T ! i"
    and marked: "\<forall>i<5. r ! i \<noteq> None"
    and cnt: "\<forall>c. count_list ts (Some c)
               + card {i. i < 5 \<and> r ! i = Some Present \<and> G ! i = c}
               + card {i. i < 5 \<and> G ! i = T ! i \<and> T ! i = c} = count_list T c"
    unfolding s2 yellow_inv_def by simp_all
  have join: "join_emoji r = map the r"
    using marked len by (intro join_emoji_all_set) simp
  have res: "format_guess_result T G = Some (map the r)"
    using T G unfolding format_guess_result_def Let_def s2 by (simp add: join)
  have nth: "map the r ! i = m \<longleftrightarrow> r ! i = Some m" if "i < 5" for i m
    using that marked len by (cases "r ! i") auto
  have 1: "\<forall>i<5. map the r ! i = Exact \<longleftrightarrow> G ! i = T ! i"
    using ex nth by simp
  have 2: "card {i. i < 5 \<and> map the r ! i = Present \<and> G ! i = c}
                  + card {i. i < 5 \<and> G ! i = T ! i \<and> T ! i = c} \<le> count_list T c" for c
  proof -
    have "{i. i < 5 \<and> map the r ! i = Present \<and> G ! i = c}
            = {i. i < 5 \<and> r ! i = Some Present \<and> G ! i = c}"
      using nth by auto
    then have "card {i. i < 5 \<and> map the r ! i = Present \<and> G ! i = c}
            = card {i. i < 5 \<and> r ! i = Some Present \<and> G ! i = c}"
      by (rule arg_cong)
    moreover have "count_list ts (Some c)
               + card {i. i < 5 \<and> r ! i = Some Present \<and> G ! i = c}
               + card {i. i < 5 \<and> G ! i = T ! i \<and> T ! i = c} = count_list T c"
      using cnt by simp
    ultimately show ?thesis by linarith
  qed
  show ?thesis
    using res len 1 2 by (intro exI [of _ "map the r"] conjI allI) simp_all
qed

subsection \<open>The claims about scoring\<close>

text \<open>
  C1. For every target \<open>T\<close> and guess \<open>G\<close> of exactly five characters,
  \<open>format_guess_result\<close> returns a pattern that marks position \<open>i\<close> exact if and only if
  \<open>G ! i = T ! i\<close>, and for every letter \<open>c\<close> the number of positions marked
  present-elsewhere whose guess letter is \<open>c\<close> is at most the number of occurrences of
  \<open>c\<close> in \<open>T\<close> minus the number of exact matches at positions where \<open>T\<close> has \<open>c\<close>
  (stated both as a sum and with the natural-number difference).
\<close>

theorem format_guess_result_exact_and_present:
  assumes "length T = 5" and "length G = 5"
  shows "\<exists>ms. format_guess_result T G = Some ms \<and>
           (\<forall>i<5. ms ! i = Exact \<longleftrightarrow> G ! i = T ! i) \<and>
           (\<forall>c. present_count ms G c + exact_count T G c \<le> count_list T c \<and>
                present_count ms G c \<le> count_list T c - exact_count T G c)"
proof -
  from format_guess_result_pattern [of T G] assms
  obtain ms where ms: "format_guess_result T G = Some ms"
    and ex: "\<forall>i<5. ms ! i = Exact \<longleftrightarrow> G ! i = T ! i"
    and cnt: "\<forall>c. card {i. i < 5 \<and> ms ! i = Present \<and> G ! i = c}
                  + card {i. i < 5 \<and> G ! i = T ! i \<and> T ! i = c} \<le> count_list T c"
    by auto
  have le: "present_count ms G c + exact_count T G c \<le> count_list T c" for c
    using cnt unfolding present_count_def exact_count_def length_filter_upt_card by simp
  have "present_count ms G c \<le> count_list T c - exact_count T G c" for c
    using le [of c] by linarith
  with le have "\<forall>c. present_count ms G c + exact_count T G c \<le> count_list T c \<and>
                present_count ms G c \<le> count_list T c - exact_count T G c"
    by blast
  with ms ex show ?thesis by blast
qed

theorem format_guess_result_exact_and_present_witness:
  "length ''EAGLE'' = 5 \<and> length ''LEVEE'' = 5 \<and>
   (\<exists>ms. format_guess_result ''EAGLE'' ''LEVEE'' = Some ms \<and>
      (\<forall>i<5. ms ! i = Exact \<longleftrightarrow> ''LEVEE'' ! i = ''EAGLE'' ! i) \<and>
      (\<forall>c. present_count ms ''LEVEE'' c + exact_count ''EAGLE'' ''LEVEE'' c
              \<le> count_list ''EAGLE'' c \<and>
           present_count ms ''LEVEE'' c
              \<le> count_list ''EAGLE'' c - exact_count ''EAGLE'' ''LEVEE'' c))"
  using format_guess_result_exact_and_present [of "''EAGLE''" "''LEVEE''"] by simp

text \<open>
  C2 (as the specification states it). For target \<open>APPLE\<close> and guess \<open>ALLEY\<close> the
  specification expects exact, absent, present-elsewhere, absent, absent. The function
  does not return that pattern.
\<close>

theorem apple_alley_claimed_pattern_counterexample:
  "format_guess_result ''APPLE'' ''ALLEY'' \<noteq> Some [Exact, Absent, Present, Absent, Absent]"
  by code_simp

text \<open>
  C2 (amended). For target \<open>APPLE\<close> and guess \<open>ALLEY\<close> the pattern is exact,
  present-elsewhere, absent, present-elsewhere, absent: the second loop runs left to
  right, so the first \<open>L\<close> (position 1) claims the only \<open>L\<close> of the target and the second
  \<open>L\<close> (position 2) finds none left; the \<open>E\<close> at position 3 claims the target's final
  \<open>E\<close>; \<open>Y\<close> does not occur.
\<close>

theorem apple_alley_pattern:
  "format_guess_result ''APPLE'' ''ALLEY'' = Some [Exact, Present, Absent, Present, Absent]"
  by code_simp

text \<open>
  C10. For every pair of five-character strings \<open>T\<close> and \<open>G\<close> the pattern has exactly
  five markers, and all five are exact if and only if \<open>G = T\<close>: the win test of
  \<open>process_message\<close> (string equality with the target) coincides with an all-exact pattern.
\<close>

theorem all_exact_iff_equal:
  assumes "length T = 5" and "length G = 5"
  shows "\<exists>ms. format_guess_result T G = Some ms \<and> length ms = 5 \<and>
           (ms = replicate 5 Exact \<longleftrightarrow> G = T)"
proof -
  from format_guess_result_pattern [of T G] assms
  obtain ms where ms: "format_guess_result T G = Some ms" and len: "length ms = 5"
    and ex: "\<forall>i<5. ms ! i = Exact \<longleftrightarrow> G ! i = T ! i"
    by auto
  have "ms = replicate 5 Exact \<longleftrightarrow> (\<forall>i<5. ms ! i = Exact)"
    using len by (auto simp: list_eq_iff_nth_eq)
  also have "\<dots> \<longleftrightarrow> (\<forall>i<5. G ! i = T ! i)"
    using ex by simp
  also have "\<dots> \<longleftrightarrow> G = T"
    using assms by (auto simp: list_eq_iff_nth_eq)
  finally show ?thesis using ms len by blast
qed

theorem all_exact_iff_equal_witness:
  "length ''GHOST'' = 5 \<and> length ''GHOST'' = 5 \<and>
   (\<exists>ms. format_guess_result ''GHOST'' ''GHOST'' = Some ms \<and> length ms = 5 \<and>
      (ms = replicate 5 Exact \<longleftrightarrow> ''GHOST'' = ''GHOST''))"
  using all_exact_iff_equal [of "''GHOST''" "''GHOST''"] by simp

section \<open>Properties of the session handlers\<close>

subsection \<open>The example texts\<close>

lemma normalise_apple: "py_upper ascii_lib (py_strip ascii_lib (lit ''apple'')) = lit ''APPLE''"
  by code_simp

lemma normalise_alley: "py_upper ascii_lib (py_strip ascii_lib (lit '' alley '')) = lit ''ALLEY''"
  by code_simp


lemma upper_text: "py_upper ascii_lib (lit ''text'') = lit ''TEXT''"
  by code_simp

lemma isalpha_APPLE: "py_isalpha ascii_lib (lit ''APPLE'')"
  by code_simp

lemma isalpha_ALLEY: "py_isalpha ascii_lib (lit ''ALLEY'')"
  by code_simp

lemma length_lit: "length (lit s) = length s"
  by (simp add: lit_def)

lemma APPLE_not_ALLEY: "lit ''APPLE'' \<noteq> lit ''ALLEY''"
  by code_simp

lemma guesses_wf_demo_game: "guesses_wf ascii_lib demo_game"
  by (simp add: guesses_wf_def demo_game_def isalpha_ALLEY length_lit APPLE_not_ALLEY)

subsection \<open>Scoring a guess inside the handler\<close>

lemma format_guess_result_same:
  assumes "length T = 5"
  shows "format_guess_result T T = Some (replicate 5 Exact)"
proof -
  from format_guess_result_pattern [of T T] assms
  obtain ms where ms: "format_guess_result T T = Some ms" and len: "length ms = 5"
    and ex: "\<forall>i<5. ms ! i = Exact \<longleftrightarrow> T ! i = T ! i"
    by auto
  have "ms = replicate 5 Exact"
    using len ex by (auto simp: list_eq_iff_nth_eq)
  with ms show ?thesis by simp
qed

lemma format_guess_result_None:
  "format_guess_result T G = None \<longleftrightarrow> length T < 5 \<or> length G < 5"
  by (simp add: format_guess_result_def Let_def)

subsection \<open>The invariants hold in every state of a run\<close>

text \<open>
  \<open>game_command\<close>, \<open>stop_command\<close> and \<open>process_message\<close> keep the invariants of the
  sessions, for every library and every input; so they hold in every state of a run. The
  example state is one: it is reached by \<open>/game\<close> in chat 7, with the word \<open>apple\<close> from
  the remote lookup, and the guess \<open>alley\<close>.
\<close>

lemma game_command_sessions_wf:
  assumes "sessions_wf py w"
  shows "sessions_wf py (snd (game_command py api_word pick chat_id w))"
  using assms by (auto simp: sessions_wf_def game_command_def guesses_wf_def)

lemma stop_command_sessions_wf:
  assumes "sessions_wf py w"
  shows "sessions_wf py (snd (stop_command chat_id w))"
  using assms by (auto simp: sessions_wf_def stop_command_def split: option.splits)

lemma process_message_sessions_wf:
  assumes wf: "sessions_wf py w"
  shows "sessions_wf py (snd (process_message py now msg_text user_id first_name chat_id w))"
proof (cases msg_text)
  case None
  with wf show ?thesis by (simp add: process_message_def)
next
  case (Some raw)
  let ?text = "py_upper py (py_strip py raw)"
  show ?thesis
  proof (cases "raw \<noteq> [] \<and> is_game_active w chat_id \<and> length ?text = 5 \<and> py_isalpha py ?text")
    case False
    with wf Some show ?thesis by (auto simp: process_message_def Let_def)
  next
    case True
    then obtain g where g: "user_games w chat_id = Some g"
      by (auto simp: is_game_active_def split: option.splits)
    with wf have act: "active g" and wfg: "guesses_wf py g" by (auto simp: sessions_wf_def)
    show ?thesis
    proof (cases "?text \<in> guessed_words g")
      case dup: True
      with wf Some True g show ?thesis by (simp add: process_message_def)
    next
      case fresh: False
      let ?g1 = "g\<lparr>guessed_words := insert ?text (guessed_words g), attempts := attempts g + 1\<rparr>"
      show ?thesis
      proof (cases "format_guess_result (word g) ?text")
        case None
        then have "length (word g) < 5" using True by (simp add: format_guess_result_None)
        with True have ne: "?text \<noteq> word g" by auto
        have "user_games (snd (process_message py now msg_text user_id first_name chat_id w))
                = (user_games w)(chat_id \<mapsto> ?g1)"
          using Some True g fresh None by (simp add: process_message_def Let_def)
        moreover have "active ?g1 \<and> guesses_wf py ?g1"
          using act wfg ne True by (auto simp: guesses_wf_def)
        ultimately show ?thesis
          using wf by (auto simp: sessions_wf_def split: if_splits)
      next
        case (Some ms)
        note ms = this
        show ?thesis
        proof (cases "?text = word g")
          case win: True
          have "user_games (snd (process_message py now msg_text user_id first_name chat_id w))
                  = (user_games w)(chat_id := None)"
            using \<open>msg_text = Some raw\<close> True g fresh ms win
            by (simp add: process_message_def Let_def)
          with wf show ?thesis by (auto simp: sessions_wf_def split: if_splits)
        next
          case miss: False
          let ?g2 = "?g1\<lparr>history := history g @ [(?text, ms)]\<rparr>"
          have "user_games (snd (process_message py now msg_text user_id first_name chat_id w))
                  = (user_games w)(chat_id \<mapsto> ?g2)"
            using \<open>msg_text = Some raw\<close> True g fresh ms miss
            by (simp add: process_message_def Let_def)
          moreover have "active ?g2 \<and> guesses_wf py ?g2"
            using act wfg miss True by (auto simp: guesses_wf_def)
          ultimately show ?thesis
            using wf by (auto simp: sessions_wf_def split: if_splits)
        qed
      qed
    qed
  qed
qed

lemma reachable_sessions_wf:
  assumes "reachable py w"
  shows "sessions_wf py w"
  using assms
proof (induction rule: reachable.induct)
  case (start d)
  show ?case by (simp add: sessions_wf_def)
next
  case (game w api_word pick chat_id)
  then show ?case by (simp add: game_command_sessions_wf)
next
  case (stop w chat_id)
  then show ?case by (simp add: stop_command_sessions_wf)
next
  case (guess w now msg_text user_id first_name chat_id)
  then show ?case by (simp add: process_message_sessions_wf)
next
  case (store w d)
  then show ?case by (simp add: sessions_wf_def)
qed

lemma upper_apple: "py_upper ascii_lib (lit ''apple'') = lit ''APPLE''"
  by code_simp

lemma normalise_alley_plain: "py_upper ascii_lib (py_strip ascii_lib (lit ''alley'')) = lit ''ALLEY''"
  by code_simp

lemma format_APPLE_ALLEY:
  "format_guess_result (lit ''APPLE'') (lit ''ALLEY'')
     = Some [Exact, Present, Absent, Present, Absent]"
  by code_simp

lemma reachable_demo_world: "reachable ascii_lib demo_world"
proof -
  let ?w0 = "\<lparr>user_games = Map.empty, db = demo_db\<rparr>"
  let ?w1 = "snd (game_command ascii_lib (Some (lit ''apple'')) 0 7 ?w0)"
  let ?w2 = "snd (process_message ascii_lib 1000 (Some (lit ''alley'')) 42 ''Ann'' 7 ?w1)"
  have w1: "?w1 = \<lparr>user_games = [7 \<mapsto> \<lparr>word = lit ''APPLE'', attempts = 0, active = True,
                                        history = [], guessed_words = {}\<rparr>],
                  db = demo_db\<rparr>"
    by (simp add: game_command_def is_game_active_def get_random_5_letter_word_def upper_apple)
  have ne: "lit ''alley'' \<noteq> []" by (simp add: lit_def)
  have "?w2 = demo_world"
    unfolding w1
    using ne APPLE_not_ALLEY
    by (simp add: process_message_def is_game_active_def Let_def normalise_alley_plain
          isalpha_ALLEY length_lit format_APPLE_ALLEY demo_world_def demo_game_def)
  moreover have "reachable ascii_lib ?w2"
    by (intro reachable.guess reachable.game reachable.start)
  ultimately show ?thesis by simp
qed

lemma reachable_demo_world_down: "reachable ascii_lib demo_world_down"
proof -
  have eq: "demo_world_down = demo_world\<lparr>db := demo_db\<lparr>status := NoConnection\<rparr>\<rparr>"
    by (simp add: demo_world_down_def demo_world_def)
  show ?thesis
    unfolding eq by (rule reachable.store [OF reachable_demo_world])
qed

subsection \<open>The claims about sessions\<close>

lemma process_message_win_state:
  assumes g: "user_games w chat_id = Some g" and act: "active g"
    and raw: "raw \<noteq> []" and eq: "py_upper py (py_strip py raw) = word g"
    and len: "length (word g) = 5" and al: "py_isalpha py (word g)"
    and fresh: "word g \<notin> guessed_words g"
  shows "\<exists>total.
     process_message py now (Some raw) user_id first_name chat_id w =
       (Replied (WinMessage first_name (attempts g + 1) total
                   (history g @ [(word g, replicate 5 Exact)])),
        w\<lparr>user_games := (user_games w)(chat_id := None),
          db := db_add_score now user_id first_name 5 chat_id (db w)\<rparr>)"
proof -
  have fg: "format_guess_result (word g) (word g) = Some (replicate 5 Exact)"
    by (rule format_guess_result_same [OF len])
  show ?thesis
    using g act len al fresh raw fg eq
    by (simp add: process_message_def is_game_active_def Let_def)
qed

text \<open>
  C4 (as the specification states it). The specification has every win persist exactly
  one score record. With the store unreachable, \<open>db_add_score\<close> returns without writing:
  the session of the example ends with a win, and \<open>scores\<close> is what it was.
\<close>

theorem win_without_store_counterexample:
  "reachable ascii_lib demo_world_down \<and>
   user_games demo_world_down 7 = Some demo_game \<and> active demo_game \<and>
   py_upper ascii_lib (py_strip ascii_lib (lit ''apple'')) = word demo_game \<and>
   scores (db (snd (process_message ascii_lib 1000 (Some (lit ''apple'')) 42 ''Ann'' 7
                      demo_world_down)))
     = scores (db demo_world_down)"
proof -
  have h1: "user_games demo_world_down 7 = Some demo_game" by (simp add: demo_world_down_def)
  have h2: "active demo_game" by (simp add: demo_game_def)
  have h3: "lit ''apple'' \<noteq> []" by (simp add: lit_def)
  have h4: "py_upper ascii_lib (py_strip ascii_lib (lit ''apple'')) = word demo_game"
    by (simp add: normalise_apple demo_game_def)
  have h5: "length (word demo_game) = 5" by (simp add: demo_game_def length_lit)
  have h6: "py_isalpha ascii_lib (word demo_game)" by (simp add: demo_game_def isalpha_APPLE)
  have h7: "word demo_game \<notin> guessed_words demo_game"
    by (simp add: demo_game_def APPLE_not_ALLEY)
  from process_message_win_state [OF h1 h2 h3 h4 h5 h6 h7, of 1000 42 "''Ann''"]
  have "scores (db (snd (process_message ascii_lib 1000 (Some (lit ''apple'')) 42 ''Ann'' 7
                           demo_world_down)))
          = scores (db_add_score 1000 42 ''Ann'' 5 7 (db demo_world_down))"
    by auto
  also have "\<dots> = scores (db demo_world_down)"
    by (simp add: db_add_score_def db_connect_def demo_world_down_def)
  finally show ?thesis using reachable_demo_world_down h1 h2 h4 by simp
qed

text \<open>
  C4 (amended). In every state of a run, when an active session exists and a submitted
  guess (a non-empty text whose normalisation has five alphabetic characters) equals the
  target word, \<open>process_message\<close> answers with the win message and removes the session
  from \<open>user_games\<close>, so that \<open>stop_command\<close> on that chat then reports that no game is
  active; it appends exactly one row for that user and chat with 5 points to \<open>scores\<close>
  when the store is up, and writes nothing when \<open>db_add_score\<close> gets no connection or its
  insert fails. This holds for every \<open>strip\<close>, \<open>upper\<close> and \<open>isalpha\<close>.
\<close>

theorem process_message_win:
  assumes "reachable py w"
    and "user_games w chat_id = Some g" and "active g"
    and "raw \<noteq> []" and "py_upper py (py_strip py raw) = word g"
    and "length (word g) = 5" and "py_isalpha py (word g)"
  shows "let (out, w') = process_message py now (Some raw) user_id first_name chat_id w in
           (\<exists>total. out = Replied (WinMessage first_name (attempts g + 1) total
                                      (history g @ [(word g, replicate 5 Exact)]))) \<and>
           user_games w' = (user_games w)(chat_id := None) \<and>
           scores (db w') =
             (if status (db w) = Up
              then scores (db w) @ [win_row now user_id first_name chat_id]
              else scores (db w)) \<and>
           stop_command chat_id w' = (NoActiveGame, w')"
proof -
  from reachable_sessions_wf [OF assms(1)] assms(2)
  have fresh: "word g \<notin> guessed_words g"
    by (auto simp: sessions_wf_def guesses_wf_def)
  from process_message_win_state [OF assms(2-7) fresh, of now user_id first_name]
  obtain total where pm: "process_message py now (Some raw) user_id first_name chat_id w =
       (Replied (WinMessage first_name (attempts g + 1) total
                   (history g @ [(word g, replicate 5 Exact)])),
        w\<lparr>user_games := (user_games w)(chat_id := None),
          db := db_add_score now user_id first_name 5 chat_id (db w)\<rparr>)"
    by blast
  have sc: "scores (db_add_score now user_id first_name 5 chat_id (db w)) =
             (if status (db w) = Up
              then scores (db w) @ [win_row now user_id first_name chat_id]
              else scores (db w))"
    by (cases "status (db w)") (simp_all add: db_add_score_def db_connect_def win_row_def)
  show ?thesis
    unfolding pm by (simp add: sc stop_command_def)
qed

theorem process_message_win_witness:
  "reachable ascii_lib demo_world \<and>
   user_games demo_world 7 = Some demo_game \<and> active demo_game \<and> lit ''apple'' \<noteq> [] \<and>
   py_upper ascii_lib (py_strip ascii_lib (lit ''apple'')) = word demo_game \<and>
   length (word demo_game) = 5 \<and> py_isalpha ascii_lib (word demo_game) \<and>
   (let (out, w') = process_message ascii_lib 1000 (Some (lit ''apple'')) 42 ''Ann'' 7 demo_world in
      (\<exists>total. out = Replied (WinMessage ''Ann'' (attempts demo_game + 1) total
                                 (history demo_game @ [(word demo_game, replicate 5 Exact)]))) \<and>
      user_games w' = (user_games demo_world)(7 := None) \<and>
      scores (db w') =
        (if status (db demo_world) = Up
         then scores (db demo_world) @ [win_row 1000 42 ''Ann'' 7]
         else scores (db demo_world)) \<and>
      stop_command 7 w' = (NoActiveGame, w'))"
proof -
  have h1: "user_games demo_world 7 = Some demo_game" by (simp add: demo_world_def)
  have h2: "active demo_game" by (simp add: demo_game_def)
  have h3: "lit ''apple'' \<noteq> []" by (simp add: lit_def)
  have h4: "py_upper ascii_lib (py_strip ascii_lib (lit ''apple'')) = word demo_game"
    by (simp add: normalise_apple demo_game_def)
  have h5: "length (word demo_game) = 5" by (simp add: demo_game_def length_lit)
  have h6: "py_isalpha ascii_lib (word demo_game)" by (simp add: demo_game_def isalpha_APPLE)
  from process_message_win [OF reachable_demo_world h1 h2 h3 h4 h5 h6]
    reachable_demo_world h1 h2 h3 h4 h5 h6
  show ?thesis by blast
qed

lemma duplicate_guess_state:
  assumes "user_games w chat_id = Some g" and "active g" and "raw \<noteq> []"
    and "py_upper py (py_strip py raw) \<in> guessed_words g"
    and "\<forall>t \<in> guessed_words g. length t = 5 \<and> py_isalpha py t"
  shows "process_message py now (Some raw) user_id first_name chat_id w
           = (Replied (DuplicateGuess (py_upper py (py_strip py raw))), w)"
proof -
  from assms(4,5) have "length (py_upper py (py_strip py raw)) = 5"
    and "py_isalpha py (py_upper py (py_strip py raw))"
    by auto
  with assms(1-4) show ?thesis
    by (simp add: process_message_def is_game_active_def)
qed

text \<open>
  C5. In every state of a run, for every active session, a submitted text whose
  normalisation is already in \<open>guessed_words\<close> gets the duplicate-guess error and the
  whole state (the session with its attempts, history and guessed words, and the store)
  is unchanged. This holds for every \<open>strip\<close>, \<open>upper\<close> and \<open>isalpha\<close>.
\<close>

theorem process_message_duplicate_guess:
  assumes "reachable py w"
    and "user_games w chat_id = Some g" and "active g" and "raw \<noteq> []"
    and "py_upper py (py_strip py raw) \<in> guessed_words g"
  shows "process_message py now (Some raw) user_id first_name chat_id w
           = (Replied (DuplicateGuess (py_upper py (py_strip py raw))), w)"
proof -
  from reachable_sessions_wf [OF assms(1)] assms(2)
  have "\<forall>t \<in> guessed_words g. length t = 5 \<and> py_isalpha py t"
    by (auto simp: sessions_wf_def guesses_wf_def)
  with assms(2-5) show ?thesis by (rule duplicate_guess_state)
qed

theorem process_message_duplicate_guess_witness:
  "reachable ascii_lib demo_world \<and>
   user_games demo_world 7 = Some demo_game \<and> active demo_game \<and> lit '' alley '' \<noteq> [] \<and>
   py_upper ascii_lib (py_strip ascii_lib (lit '' alley '')) \<in> guessed_words demo_game \<and>
   process_message ascii_lib 1000 (Some (lit '' alley '')) 42 ''Ann'' 7 demo_world
     = (Replied (DuplicateGuess (lit ''ALLEY'')), demo_world)"
proof -
  have h1: "user_games demo_world 7 = Some demo_game" by (simp add: demo_world_def)
  have h2: "active demo_game" by (simp add: demo_game_def)
  have h3: "lit '' alley '' \<noteq> []" by (simp add: lit_def)
  have h4: "py_upper ascii_lib (py_strip ascii_lib (lit '' alley '')) \<in> guessed_words demo_game"
    by (simp add: normalise_alley demo_game_def)
  from process_message_duplicate_guess [OF reachable_demo_world h1 h2 h3 h4, of 1000 42 "''Ann''"]
    reachable_demo_world h1 h2 h3 h4
  show ?thesis by (simp add: normalise_alley)
qed

text \<open>
  C6. \<open>game_command\<close> on a chat with an active session answers that a game is already
  running and returns the state as it was, so the session keeps its target word,
  attempts, history, guessed words and active flag.
\<close>

theorem game_command_already_active:
  assumes "user_games w chat_id = Some g" and "active g"
  shows "game_command py api_word pick chat_id w = (AlreadyActive, w)"
  using assms by (simp add: game_command_def is_game_active_def)

theorem game_command_already_active_witness:
  "user_games demo_world 7 = Some demo_game \<and> active demo_game \<and>
   game_command ascii_lib (Some (lit ''brain'')) 0 7 demo_world = (AlreadyActive, demo_world)"
proof -
  have h1: "user_games demo_world 7 = Some demo_game" by (simp add: demo_world_def)
  have h2: "active demo_game" by (simp add: demo_game_def)
  from game_command_already_active [OF h1 h2] h1 h2 show ?thesis by simp
qed



text \<open>The first guard: a missing or an empty text gets no reply and changes nothing.\<close>

lemma process_message_no_text:
  "process_message py now None user_id first_name chat_id w = (Silent, w)"
  "process_message py now (Some []) user_id first_name chat_id w = (Silent, w)"
  by (simp_all add: process_message_def)

section \<open>Properties of the leaderboard query\<close>

text \<open>
  What the query does guarantee: one row per pair of user id and display name among the
  matching rows, with the sum of that pair's points; totals in descending order; at most
  ten rows.
\<close>

lemma sorted_uminus_desc: "sorted (map (\<lambda>x. - f x) xs) \<Longrightarrow> sorted_wrt (\<ge>) (map (f :: 'a \<Rightarrow> int) xs)"
  by (induction xs) auto

lemma leaderboard_query_props:
  fixes rows now time_filter scope chat_id
  defines "matching \<equiv> matching_rows rows now time_filter scope chat_id"
  defines "results \<equiv> leaderboard_query rows now time_filter scope chat_id"
  shows "distinct (map (\<lambda>(u, n, t). (u, n)) results)"
    and "\<forall>(u, n, t) \<in> set results.
           (\<exists>r \<in> set matching. sr_user_id r = u \<and> sr_user_name r = n) \<and>
           t = group_total matching u n"
    and "sorted_wrt (\<ge>) (map (\<lambda>(u, n, t). t) results)"
    and "length results \<le> 10"
proof -
  let ?groups = "remdups (map (\<lambda>r. (sr_user_id r, sr_user_name r)) matching)"
  let ?totals = "map (\<lambda>(u, n). (u, n, group_total matching u n)) ?groups"
  let ?key = "\<lambda>(u :: int, n :: string, t :: int). (u, n)"
  let ?sorted = "sort_key (\<lambda>(u :: int, n :: string, t :: int). - t) ?totals"
  have res: "results = take 10 ?sorted"
    by (simp add: results_def matching_def leaderboard_query_def Let_def)
  have keys: "map ?key ?totals = ?groups"
    by (simp add: comp_def case_prod_beta)
  have dk: "distinct (map ?key ?totals)"
    unfolding keys by simp
  then have "distinct ?totals \<and> inj_on ?key (set ?totals)"
    by (simp only: distinct_map)
  then have "distinct ?sorted \<and> inj_on ?key (set ?sorted)"
    by (simp only: distinct_sort set_sort)
  then have "distinct (map ?key ?sorted)"
    by (simp only: distinct_map)
  then have "distinct (take 10 (map ?key ?sorted))"
    by (rule distinct_take)
  then show "distinct (map (\<lambda>(u, n, t). (u, n)) results)"
    by (simp add: res take_map)
  have sub: "set results \<subseteq> set ?totals"
    unfolding res using set_take_subset [of 10 ?sorted] by simp
  show "\<forall>(u, n, t) \<in> set results.
           (\<exists>r \<in> set matching. sr_user_id r = u \<and> sr_user_name r = n) \<and>
           t = group_total matching u n"
    using sub by auto
  have "sorted (map (\<lambda>(u, n, t). - t) ?sorted)"
    by (rule sorted_sort_key)
  moreover have "(\<lambda>(u :: int, n :: string, t :: int). - t)
                   = (\<lambda>x. - (case x of (u, n, t) \<Rightarrow> t))"
    by (rule ext) (simp split: prod.splits)
  ultimately have "sorted (map (\<lambda>x. - (case x of (u, n, t) \<Rightarrow> t)) ?sorted)"
    by (simp only:)
  then have "sorted_wrt (\<ge>) (map (\<lambda>(u, n, t). t) ?sorted)"
    by (rule sorted_uminus_desc)
  then have "sorted_wrt (\<ge>) (take 10 (map (\<lambda>(u, n, t). t) ?sorted))"
    by (rule sorted_wrt_take)
  then show "sorted_wrt (\<ge>) (map (\<lambda>(u, n, t). t) results)"
    by (simp add: res take_map)
  show "length results \<le> 10"
    by (simp add: res)
qed

text \<open>
  C3. The claim: the leaderboard groups the matching rows by user id alone, so each user
  id appears at most once and its total is the sum of all its matching points. The code
  falls short of it: the query groups by \<open>user_id, user_name\<close>, although
  \<open>db_get_leaderboard\<close> keys \<open>user_names\<close> by user id alone and \<open>process_message\<close> reads
  a user's total from the first row with that id. On a store where user 42 won twice
  under two display names, the result has user 42 twice with 5 points each, while the sum
  of that user's matching points is 10.
\<close>

theorem leaderboard_two_names:
  "fst (db_get_leaderboard 1000 ''all'' ''global'' 7 two_names_db) = [(42, 5), (42, 5)] \<and>
   sum_list (map sr_points (filter (\<lambda>r. sr_user_id r = 42) (scores two_names_db))) = 10"
  by code_simp

text \<open>
  C8. Without a connection, or when executing the query fails, \<open>db_get_leaderboard\<close>
  returns the empty sequence and the empty name mapping, for every time filter, scope and
  chat id.
\<close>

theorem db_get_leaderboard_failure:
  assumes "status d \<noteq> Up"
  shows "db_get_leaderboard now time_filter scope chat_id d = ([], Map.empty)"
  using assms by (cases "status d") (simp_all add: db_get_leaderboard_def db_connect_def)

theorem db_get_leaderboard_failure_witness:
  "status (demo_db\<lparr>status := QueryFails\<rparr>) \<noteq> Up \<and>
   db_get_leaderboard 1000 ''today'' ''local'' 7 (demo_db\<lparr>status := QueryFails\<rparr>)
     = ([], Map.empty)"
proof -
  have h: "status (demo_db\<lparr>status := QueryFails\<rparr>) \<noteq> Up" by simp
  show ?thesis by (rule conjI [OF h db_get_leaderboard_failure [OF h]])
qed

section \<open>Properties of the broadcast dispatcher\<close>

lemma broadcast_loop_result:
  "broadcast_loop send_ok current xs (s, a) =
     (s + length (filter (\<lambda>c. c \<noteq> current \<and> send_ok c) xs), a @ filter (\<lambda>c. c \<noteq> current) xs)"
  by (induction xs arbitrary: s a) auto

lemma str_nat_3: "str_nat 3 = ''3''"
  by code_simp

lemma str_nat_4: "str_nat 4 = ''4''"
  by code_simp

lemma str_nat_5: "str_nat 5 = ''5''"
  by code_simp

lemma demo_chat_ids: "db_get_all_chat_ids (db demo_world) = [1, 2, 3, 4, 5]"
  by (simp add: db_get_all_chat_ids_def db_connect_def demo_world_def demo_db_def)

text \<open>
  C9 (as the specification states it). The specification has a broadcast to 5 registered
  chats with exactly one failing send report \<open>4/5\<close>. Issued from a registered chat, the
  command skips that chat but still counts it in the total: with five registered chats
  and exactly one failing send, the report from chat 1 reads \<open>3/5\<close>.
\<close>

theorem broadcast_from_registered_chat_counterexample:
  "length (db_get_all_chat_ids (db demo_world)) = 5 \<and>
   length (filter (\<lambda>c. \<not> c \<noteq> 3) (db_get_all_chat_ids (db demo_world))) = 1 \<and>
   broadcast_command ascii_lib 99 (\<lambda>c. c \<noteq> 3) 99 1 (Some demo_message) demo_world =
     (BroadcastComplete (lit ''TEXT'') 3 5, [2, 3, 4, 5]) \<and>
   success_ratio (fst (broadcast_command ascii_lib 99 (\<lambda>c. c \<noteq> 3) 99 1 (Some demo_message)
                         demo_world)) = ''3/5''"
proof -
  have bc: "broadcast_command ascii_lib 99 (\<lambda>c. c \<noteq> 3) 99 1 (Some demo_message) demo_world =
     (BroadcastComplete (lit ''TEXT'') 3 5, [2, 3, 4, 5])"
    by (simp add: broadcast_command_def demo_chat_ids upper_text demo_message_def)
  have "success_ratio (BroadcastComplete (lit ''TEXT'') 3 5) = ''3/5''"
    by (simp add: success_ratio_def str_nat_3 str_nat_5)
  then show ?thesis
    unfolding bc by (simp add: demo_chat_ids)
qed

text \<open>
  C9 (amended). For the owner replying to a message with a content type,
  \<open>broadcast_command\<close> attempts a send to every registered chat other than the one the
  command came from, whatever the earlier sends did, and reports the number of successful
  sends out of the number of registered chats (the issuing chat included when it is
  registered); with five registered chats, none of them the issuing chat, and exactly one
  failing send, the report reads \<open>4/5\<close>.
\<close>

theorem broadcast_command_report:
  assumes "content_type m = Some ct"
  shows "broadcast_command py owner send_ok owner current (Some m) w =
           (BroadcastComplete (py_upper py ct)
              (length (filter (\<lambda>c. c \<noteq> current \<and> send_ok c) (db_get_all_chat_ids (db w))))
              (length (db_get_all_chat_ids (db w))),
            filter (\<lambda>c. c \<noteq> current) (db_get_all_chat_ids (db w))) \<and>
         (length (db_get_all_chat_ids (db w)) = 5 \<longrightarrow>
          current \<notin> set (db_get_all_chat_ids (db w)) \<longrightarrow>
          length (filter (\<lambda>c. \<not> send_ok c) (db_get_all_chat_ids (db w))) = 1 \<longrightarrow>
          success_ratio (fst (broadcast_command py owner send_ok owner current (Some m) w))
            = ''4/5'')"
proof -
  let ?ids = "db_get_all_chat_ids (db w)"
  have bc: "broadcast_command py owner send_ok owner current (Some m) w =
           (BroadcastComplete (py_upper py ct)
              (length (filter (\<lambda>c. c \<noteq> current \<and> send_ok c) ?ids)) (length ?ids),
            filter (\<lambda>c. c \<noteq> current) ?ids)"
    using assms by (simp add: broadcast_command_def Let_def broadcast_loop_result)
  have "success_ratio (fst (broadcast_command py owner send_ok owner current (Some m) w)) = ''4/5''"
    if five: "length ?ids = 5" and cur: "current \<notin> set ?ids"
      and one: "length (filter (\<lambda>c. \<not> send_ok c) ?ids) = 1"
  proof -
    have "filter (\<lambda>c. c \<noteq> current \<and> send_ok c) ?ids = filter send_ok ?ids"
      using cur by (intro filter_cong) auto
    moreover have "length (filter send_ok ?ids) + length (filter (\<lambda>c. \<not> send_ok c) ?ids)
                     = length ?ids"
      by (rule sum_length_filter_compl)
    ultimately have "length (filter (\<lambda>c. c \<noteq> current \<and> send_ok c) ?ids) = 4"
      using five one by simp
    then show ?thesis
      unfolding bc using five by (simp add: success_ratio_def str_nat_4 str_nat_5)
  qed
  with bc show ?thesis by blast
qed

theorem broadcast_command_report_witness:
  "content_type demo_message = Some (lit ''text'') \<and>
   broadcast_command ascii_lib 99 (\<lambda>c. c \<noteq> 3) 99 100 (Some demo_message) demo_world =
     (BroadcastComplete (lit ''TEXT'') 4 5, [1, 2, 3, 4, 5]) \<and>
   success_ratio (fst (broadcast_command ascii_lib 99 (\<lambda>c. c \<noteq> 3) 99 100 (Some demo_message)
                         demo_world)) = ''4/5''"
proof -
  have h: "content_type demo_message = Some (lit ''text'')" by (simp add: demo_message_def)
  note report = broadcast_command_report [OF h, of ascii_lib 99 "\<lambda>c. c \<noteq> 3" 100 demo_world]
  from report
  have "broadcast_command ascii_lib 99 (\<lambda>c. c \<noteq> 3) 99 100 (Some demo_message) demo_world =
     (BroadcastComplete (lit ''TEXT'') 4 5, [1, 2, 3, 4, 5])"
    by (simp add: demo_chat_ids upper_text)
  moreover have "length (db_get_all_chat_ids (db demo_world)) = 5"
    and "100 \<notin> set (db_get_all_chat_ids (db demo_world))"
    and "length (filter (\<lambda>c. \<not> c \<noteq> 3) (db_get_all_chat_ids (db demo_world))) = 1"
    by (simp_all add: demo_chat_ids)
  then have "success_ratio (fst (broadcast_command ascii_lib 99 (\<lambda>c. c \<noteq> 3) 99 100
                                   (Some demo_message) demo_world)) = ''4/5''"
    by (rule report [THEN conjunct2, rule_format])
  ultimately show ?thesis using h by blast
qed

end
